theory Spec2Isabelle
  imports Main "HOL-Library.Word" "HOL-Library.AList" "HOL-Library.Multiset"
begin

unbundle bit_operations_syntax

section \<open>Shared data model\<close>

text \<open>
  The repository holds three implementations of the same broker: package v0 (one global
  registry \<open>map[string]*User\<close> and one dispatcher), package v1 with a copy-on-write
  snapshot \<open>map[string]*websocket.Conn\<close> per pool (src/v1/im.go), and package v1 with
  nested \<open>sync.Map\<close>s. All three share the \<open>Message\<close> struct, the message pool
  and the shape of the connection handler.

  A \<open>*websocket.Conn\<close> is a pointer: two connections are the same when their addresses
  are, so a connection is modelled by its address. Go strings and \<open>json.RawMessage\<close>
  are byte sequences, modelled as \<open>string\<close> (a list of 8-bit characters); a nil slice
  and an empty slice are the same list \<open>[]\<close>, as they are for \<open>len\<close> and
  \<open>range\<close>.
\<close>

type_synonym conn = nat

record Message =
  At :: "64 word"
  Device :: string
  Sender :: string
  MBytes :: string
  Receivers :: "string list"

text \<open>
  What the code does to the outside world is recorded as a trace, in program order:
  \<open>conn.Close()\<close>, an attempted \<open>conn.WriteJSON(message)\<close>, a call of
  \<open>log.Error(msg, err)\<close> on a logger that is set, a send of a message on the channel
  \<open>messageCh\<close> of the pool with a given index (v0 has a single channel, index 0), and a
  run-time panic. A panic ends the function it occurs in; what follows it in a trace is
  done by the deferred calls that run while the panic unwinds.
\<close>

datatype event =
    Close conn
  | WriteJSON conn Message
  | LogError string string
  | Send "32 word" Message
  | Panic

text \<open>
  \<open>conn.ReadJSON(message)\<close> is the transport's: it either fails (decode error or
  closed transport) or mutates the message it was given. The second case is an arbitrary
  function on messages, so that nothing is assumed about the JSON decoder.
\<close>

datatype read_outcome = ReadError string | Decoded "Message \<Rightarrow> Message"

text \<open>The outcome of \<open>conn.WriteJSON(message)\<close>: \<open>None\<close> for nil, or the error text.\<close>

type_synonym writer = "conn \<Rightarrow> Message \<Rightarrow> string option"

section \<open>Message pool\<close>

text \<open>
  \<open>messageBuf\<close> is a \<open>sync.Pool\<close> whose \<open>New\<close> returns \<open>&Message{}\<close>. The
  pool is modelled by its free list: \<open>Get\<close> takes a pooled object when there is one and
  calls \<open>New\<close> otherwise; \<open>Put\<close> adds the object.
\<close>

definition newMessage :: Message where
  "newMessage = \<lparr>At = 0, Device = [], Sender = [], MBytes = [], Receivers = []\<rparr>"

fun getMessageFromPool :: "Message list \<Rightarrow> Message \<times> Message list" where
  "getMessageFromPool [] = (newMessage, [])"
| "getMessageFromPool (m # pool) = (m, pool)"

text \<open>v0 only (the v1 packages define no release operation).\<close>

definition putMessageToPool :: "Message \<Rightarrow> Message list \<Rightarrow> Message list" where
  "putMessageToPool message pool =
     (let message = message\<lparr>At := 0\<rparr>;
          message = message\<lparr>Sender := []\<rparr>;
          message = message\<lparr>MBytes := []\<rparr>;
          message = message\<lparr>Receivers := []\<rparr>
      in message # pool)"

section \<open>Shard router\<close>

text \<open>
  \<open>hash/fnv\<close>'s \<open>New32a\<close>: start from the offset basis, and for each byte xor it in
  and multiply by the prime, in 32-bit arithmetic.
\<close>

definition offset32 :: "32 word" where
  "offset32 = 2166136261"

definition prime32 :: "32 word" where
  "prime32 = 16777619"

fun sum32a_Write :: "32 word \<Rightarrow> string \<Rightarrow> 32 word" where
  "sum32a_Write hash [] = hash"
| "sum32a_Write hash (c # data) = sum32a_Write ((hash XOR of_nat (of_char c)) * prime32) data"

text \<open>
  \<open>numPools = 2 * runtime.NumCPU()\<close> is fixed when the package is initialised; the
  number of CPUs is the parameter \<open>ncpu\<close>. \<open>uint32(numPools)\<close> truncates to 32 bits.
  The Go \<open>%\<close> panics on a zero divisor, which needs \<open>2 ^ 31\<close> to divide \<open>ncpu\<close>;
  the theorems about \<open>hashIndex\<close> assume \<open>0 < ncpu < 2 ^ 31\<close>.
\<close>

definition numPools :: "nat \<Rightarrow> nat" where
  "numPools ncpu = 2 * ncpu"

definition hashIndex :: "nat \<Rightarrow> string \<Rightarrow> 32 word" where
  "hashIndex ncpu ident = sum32a_Write offset32 ident mod of_nat (numPools ncpu)"

section \<open>Delivery attempts and traces\<close>

text \<open>
  One delivery attempt of a dispatcher of v0 or of the sync.Map package, whose logger is
  \<open>slog.Default()\<close>: \<open>conn.WriteJSON(message)\<close>, and when it fails a single
  \<open>log.Error("dropped message", ...)\<close>; nothing else happens on failure.
\<close>

definition writeOrLog :: "writer \<Rightarrow> conn \<Rightarrow> Message \<Rightarrow> event list" where
  "writeOrLog write conn message =
     WriteJSON conn message
     # (case write conn message of
          None \<Rightarrow> []
        | Some err \<Rightarrow> [LogError ''dropped message'' err])"

text \<open>Projections of a trace.\<close>

fun writes :: "event list \<Rightarrow> (conn \<times> Message) list" where
  "writes [] = []"
| "writes (WriteJSON c m # evs) = (c, m) # writes evs"
| "writes (e # evs) = writes evs"

fun closes :: "event list \<Rightarrow> conn list" where
  "closes [] = []"
| "closes (Close c # evs) = c # closes evs"
| "closes (e # evs) = closes evs"

fun sends :: "event list \<Rightarrow> (32 word \<times> Message) list" where
  "sends [] = []"
| "sends (Send i m # evs) = (i, m) # sends evs"
| "sends (e # evs) = sends evs"

fun logs :: "event list \<Rightarrow> (string \<times> string) list" where
  "logs [] = []"
| "logs (LogError s err # evs) = (s, err) # logs evs"
| "logs (e # evs) = logs evs"

section \<open>Package v1, copy-on-write registry (src/v1/im.go)\<close>

text \<open>
  A pool's registry is a \<open>map[string]*websocket.Conn\<close> keyed by \<open>userID+device\<close>.
  It is an association list with distinct keys; the order of the list is the order in
  which \<open>range\<close> visits the map, which Go leaves unspecified, so the theorems hold for
  every order.
\<close>

type_synonym registry = "(string \<times> conn) list"

text \<open>
  The loop shared by \<open>userDeviceJoin\<close> and \<open>userDeviceLeft\<close>: copy every entry but
  the one under \<open>key\<close>, which is closed.
\<close>

fun copyExcept :: "string \<Rightarrow> registry \<Rightarrow> registry \<times> event list" where
  "copyExcept key [] = ([], [])"
| "copyExcept key ((k, v) # users) =
     (case copyExcept key users of (userCopies, evs) \<Rightarrow>
        if k = key then (userCopies, Close v # evs) else ((k, v) # userCopies, evs))"

text \<open>
  \<open>userDeviceJoin\<close> up to \<open>pool.users.Store(userCopies)\<close>; the function then runs
  \<open>handleConnection\<close> on the stored registry.
\<close>

definition userDeviceJoin :: "string \<Rightarrow> string \<Rightarrow> conn \<Rightarrow> registry \<Rightarrow> registry \<times> event list" where
  "userDeviceJoin userID device conn users =
     (case copyExcept (userID @ device) users of (userCopies, evs) \<Rightarrow>
        (AList.update (userID @ device) conn userCopies, evs))"

definition userDeviceLeft :: "string \<Rightarrow> string \<Rightarrow> registry \<Rightarrow> registry \<times> event list" where
  "userDeviceLeft userID device users = copyExcept (userID @ device) users"

text \<open>
  The body of the read loop after a successful read: the message, already stamped, is
  sent to the pool of every entry of \<open>Receivers\<close> in order, then to the sender's pool.
\<close>

definition route :: "nat \<Rightarrow> string \<Rightarrow> Message \<Rightarrow> event list" where
  "route ncpu userID message =
     map (\<lambda>r. Send (hashIndex ncpu r) message) (Receivers message)
     @ [Send (hashIndex ncpu userID) message]"

text \<open>
  The \<open>for\<close> loop of \<open>handleConnection\<close> over the outcomes of the successive
  \<open>ReadJSON\<close> calls. When the outcomes run out with no error the handler is still
  blocked in \<open>ReadJSON\<close>: the loop has not exited, which is \<open>None\<close>. The result is
  the free list of the message pool and the trace.

  In this package \<open>wsMgr\<close> is built without its \<open>log\<close> field (lines 42-47), so
  the logger is nil. When a read fails, \<open>wsMgr.log.Error\<close> dereferences the nil logger
  and panics: no log entry is made and the \<open>break\<close> is not reached; the loop is left
  by the panic.
\<close>

fun readLoop ::
  "nat \<Rightarrow> string \<Rightarrow> string \<Rightarrow> read_outcome list \<Rightarrow> Message list
     \<Rightarrow> (Message list \<times> event list) option" where
  "readLoop ncpu userID device [] buf = None"
| "readLoop ncpu userID device (r # rs) buf =
     (case getMessageFromPool buf of (message, buf) \<Rightarrow>
        (case r of
           ReadError err \<Rightarrow> Some (buf, [Panic])
         | Decoded decode \<Rightarrow>
             (let message = decode message;
                  message = message\<lparr>Device := device\<rparr>;
                  message = message\<lparr>Sender := userID\<rparr>
              in map_option (\<lambda>(buf, evs). (buf, route ncpu userID message @ evs))
                   (readLoop ncpu userID device rs buf))))"

text \<open>
  \<open>handleConnection\<close>: the read loop, then the deferred \<open>userDeviceLeft\<close>, which
  runs while the panic of the loop unwinds. The state is the pool's registry (as it is
  when the deferred call runs) and the message pool.
\<close>

definition handleConnection ::
  "nat \<Rightarrow> string \<Rightarrow> string \<Rightarrow> read_outcome list \<Rightarrow> registry \<times> Message list
     \<Rightarrow> ((registry \<times> Message list) \<times> event list) option" where
  "handleConnection ncpu userID device reads st =
     (case readLoop ncpu userID device reads (snd st) of
        None \<Rightarrow> None
      | Some (buf, evs) \<Rightarrow>
          (case userDeviceLeft userID device (fst st) of (users, evs') \<Rightarrow>
             Some ((users, buf), evs @ evs')))"

text \<open>
  \<open>messageDispatcher\<close>: the body of the \<open>select\<close> case that receives a message, one
  pass over the registry snapshot. The pass stores nothing: the state is returned as it
  was. When a write fails, \<open>wsMgr.log.Error\<close> is called on the nil logger of this
  package and panics; the dispatcher has no deferred call and no \<open>recover\<close>, so the
  pass ends there.
\<close>

fun dispatchRange :: "writer \<Rightarrow> Message \<Rightarrow> registry \<Rightarrow> event list" where
  "dispatchRange write message [] = []"
| "dispatchRange write message ((k, conn) # users) =
     (if k = Sender message @ Device message then dispatchRange write message users
      else (case write conn message of
              None \<Rightarrow> WriteJSON conn message # dispatchRange write message users
            | Some err \<Rightarrow> [WriteJSON conn message, Panic]))"

definition messageDispatcher ::
  "writer \<Rightarrow> Message \<Rightarrow> registry \<times> Message list \<Rightarrow> (registry \<times> Message list) \<times> event list" where
  "messageDispatcher write message st = (st, dispatchRange write message (fst st))"

section \<open>Package v1, sync.Map registry\<close>

text \<open>
  A pool's \<open>users\<close> is a \<open>sync.Map\<close> from user ID to \<open>*User\<close>, and a user's
  \<open>devices\<close> a \<open>sync.Map\<close> from device to connection. A user object is created once
  per user ID and never replaced or deleted, so the nested association list is faithful
  to the pointers. The channel \<open>messageCh\<close> of a user is never used and is left out.
\<close>

record User_sm =
  devices_sm :: "(string \<times> conn) list"

type_synonym registry_sm = "(string \<times> User_sm) list"

text \<open>
  The \<open>Range\<close> of \<open>userDeviceJoin\<close>: skip the other users, store the device in the
  user found and stop.
\<close>

fun joinRange_sm :: "string \<Rightarrow> string \<Rightarrow> conn \<Rightarrow> registry_sm \<Rightarrow> registry_sm" where
  "joinRange_sm userID deviceType conn [] = []"
| "joinRange_sm userID deviceType conn ((uid, user) # users) =
     (if uid \<noteq> userID then (uid, user) # joinRange_sm userID deviceType conn users
      else (uid, user\<lparr>devices_sm := AList.update deviceType conn (devices_sm user)\<rparr>) # users)"

text \<open>
  \<open>userDeviceJoin\<close> up to the call of \<open>handleConnection\<close>. No branch closes
  anything: the trace is empty.
\<close>

definition userDeviceJoin_sm ::
  "string \<Rightarrow> string \<Rightarrow> conn \<Rightarrow> registry_sm \<Rightarrow> registry_sm \<times> event list" where
  "userDeviceJoin_sm userID deviceType conn users =
     (let users = joinRange_sm userID deviceType conn users
      in case map_of users userID of
           None \<Rightarrow>
             (let u = \<lparr>devices_sm = []\<rparr>;
                  u = u\<lparr>devices_sm := AList.update deviceType conn (devices_sm u)\<rparr>
              in (AList.update userID u users, []))
         | Some user \<Rightarrow>
             (let user = user\<lparr>devices_sm := AList.update deviceType conn (devices_sm user)\<rparr>
              in (AList.update userID user users, [])))"

fun leftRange_sm :: "string \<Rightarrow> string \<Rightarrow> registry_sm \<Rightarrow> registry_sm" where
  "leftRange_sm userID deviceType [] = []"
| "leftRange_sm userID deviceType ((uid, user) # users) =
     (if uid \<noteq> userID then (uid, user) # leftRange_sm userID deviceType users
      else (uid, user\<lparr>devices_sm := AList.delete deviceType (devices_sm user)\<rparr>) # users)"

definition userDeviceLeft_sm :: "string \<Rightarrow> string \<Rightarrow> registry_sm \<Rightarrow> registry_sm \<times> event list" where
  "userDeviceLeft_sm userID deviceType users = (leftRange_sm userID deviceType users, [])"

text \<open>
  The read loop; the two stamping assignments are in the other order, and the logger of
  this package is set, so that a failed read is logged and the loop is left by \<open>break\<close>.
\<close>

fun readLoop_sm ::
  "nat \<Rightarrow> string \<Rightarrow> string \<Rightarrow> read_outcome list \<Rightarrow> Message list
     \<Rightarrow> (Message list \<times> event list) option" where
  "readLoop_sm ncpu userID deviceType [] buf = None"
| "readLoop_sm ncpu userID deviceType (r # rs) buf =
     (case getMessageFromPool buf of (message, buf) \<Rightarrow>
        (case r of
           ReadError err \<Rightarrow> Some (buf, [LogError ''read data from websocket'' err])
         | Decoded decode \<Rightarrow>
             (let message = decode message;
                  message = message\<lparr>Sender := userID\<rparr>;
                  message = message\<lparr>Device := deviceType\<rparr>
              in map_option (\<lambda>(buf, evs). (buf, route ncpu userID message @ evs))
                   (readLoop_sm ncpu userID deviceType rs buf))))"

definition handleConnection_sm ::
  "nat \<Rightarrow> string \<Rightarrow> string \<Rightarrow> read_outcome list \<Rightarrow> registry_sm \<times> Message list
     \<Rightarrow> ((registry_sm \<times> Message list) \<times> event list) option" where
  "handleConnection_sm ncpu userID deviceType reads st =
     (case readLoop_sm ncpu userID deviceType reads (snd st) of
        None \<Rightarrow> None
      | Some (buf, evs) \<Rightarrow>
          (case userDeviceLeft_sm userID deviceType (fst st) of (users, evs') \<Rightarrow>
             Some ((users, buf), evs @ evs')))"

text \<open>
  The dispatcher's pass. For each user: every entry of \<open>Receivers\<close> equal to the user
  ID writes to all the user's devices; then, when the user is the sender, every device
  but the originating one is written.
\<close>

fun devicesRange_sm :: "writer \<Rightarrow> Message \<Rightarrow> (string \<times> conn) list \<Rightarrow> event list" where
  "devicesRange_sm write message [] = []"
| "devicesRange_sm write message ((device, conn) # ds) =
     writeOrLog write conn message @ devicesRange_sm write message ds"

fun othersRange_sm :: "writer \<Rightarrow> Message \<Rightarrow> (string \<times> conn) list \<Rightarrow> event list" where
  "othersRange_sm write message [] = []"
| "othersRange_sm write message ((device, conn) # ds) =
     (if device = Device message then othersRange_sm write message ds
      else writeOrLog write conn message @ othersRange_sm write message ds)"

fun receiversLoop_sm :: "writer \<Rightarrow> Message \<Rightarrow> string \<Rightarrow> User_sm \<Rightarrow> string list \<Rightarrow> event list" where
  "receiversLoop_sm write message uid user [] = []"
| "receiversLoop_sm write message uid user (r # rs) =
     (if uid = r then devicesRange_sm write message (devices_sm user) else [])
     @ receiversLoop_sm write message uid user rs"

fun dispatchRange_sm :: "writer \<Rightarrow> Message \<Rightarrow> registry_sm \<Rightarrow> event list" where
  "dispatchRange_sm write message [] = []"
| "dispatchRange_sm write message ((uid, user) # users) =
     receiversLoop_sm write message uid user (Receivers message)
     @ (if uid = Sender message then othersRange_sm write message (devices_sm user) else [])
     @ dispatchRange_sm write message users"

definition messageDispatcher_sm ::
  "writer \<Rightarrow> Message \<Rightarrow> registry_sm \<times> Message list
     \<Rightarrow> (registry_sm \<times> Message list) \<times> event list" where
  "messageDispatcher_sm write message st = (st, dispatchRange_sm write message (fst st))"

section \<open>Package v0\<close>

text \<open>
  The manager holds \<open>users\<close>, a \<open>map[string]*User\<close>. A handler keeps the pointer to
  its user while the map entry can be deleted and made anew, so the user objects live in
  a store of their own, a function from addresses to objects; the map holds addresses.
\<close>

record User =
  ID :: string
  devices :: "(string \<times> conn) list"

record WebsocketMgr =
  users_v0 :: "(string \<times> nat) list"
  objects :: "nat \<Rightarrow> User"
  messageBuf :: "Message list"

definition userLeft :: "string \<Rightarrow> WebsocketMgr \<Rightarrow> WebsocketMgr" where
  "userLeft userID mgr = mgr\<lparr>users_v0 := AList.delete userID (users_v0 mgr)\<rparr>"

definition deviceLeft :: "nat \<Rightarrow> string \<Rightarrow> WebsocketMgr \<Rightarrow> WebsocketMgr \<times> event list" where
  "deviceLeft p device mgr =
     (let user = objects mgr p;
          (user, evs) =
            (case map_of (devices user) device of
               Some conn \<Rightarrow> (user\<lparr>devices := AList.delete device (devices user)\<rparr>, [Close conn])
             | None \<Rightarrow> (user, []));
          mgr = mgr\<lparr>objects := (objects mgr)(p := user)\<rparr>
      in if length (devices user) = 0 then (userLeft (ID user) mgr, evs) else (mgr, evs))"

text \<open>The read loop of v0: one send on the manager's single channel.\<close>

fun readLoop_v0 ::
  "string \<Rightarrow> string \<Rightarrow> read_outcome list \<Rightarrow> Message list
     \<Rightarrow> (Message list \<times> event list) option" where
  "readLoop_v0 userID device [] buf = None"
| "readLoop_v0 userID device (r # rs) buf =
     (case getMessageFromPool buf of (message, buf) \<Rightarrow>
        (case r of
           ReadError err \<Rightarrow> Some (buf, [LogError ''read data from websocket'' err])
         | Decoded decode \<Rightarrow>
             (let message = decode message;
                  message = message\<lparr>Device := device\<rparr>;
                  message = message\<lparr>Sender := userID\<rparr>
              in map_option (\<lambda>(buf, evs). (buf, Send 0 message # evs))
                   (readLoop_v0 userID device rs buf))))"

definition handleConnection_v0 ::
  "nat \<Rightarrow> string \<Rightarrow> read_outcome list \<Rightarrow> WebsocketMgr \<Rightarrow> (WebsocketMgr \<times> event list) option" where
  "handleConnection_v0 p device reads mgr =
     (case readLoop_v0 (ID (objects mgr p)) device reads (messageBuf mgr) of
        None \<Rightarrow> None
      | Some (buf, evs) \<Rightarrow>
          (case deviceLeft p device (mgr\<lparr>messageBuf := buf\<rparr>) of (mgr, evs') \<Rightarrow>
             Some (mgr, evs @ evs')))"

fun devicesRange_v0 :: "writer \<Rightarrow> Message \<Rightarrow> User \<Rightarrow> (string \<times> conn) list \<Rightarrow> event list" where
  "devicesRange_v0 write message user [] = []"
| "devicesRange_v0 write message user ((device, conn) # ds) =
     (if Sender message = ID user \<and> Device message = device
      then devicesRange_v0 write message user ds
      else writeOrLog write conn message @ devicesRange_v0 write message user ds)"

fun usersRange_v0 ::
  "writer \<Rightarrow> Message \<Rightarrow> (nat \<Rightarrow> User) \<Rightarrow> (string \<times> nat) list \<Rightarrow> event list" where
  "usersRange_v0 write message objs [] = []"
| "usersRange_v0 write message objs ((uid, p) # us) =
     devicesRange_v0 write message (objs p) (devices (objs p))
     @ usersRange_v0 write message objs us"

definition messageDispatcher_v0 ::
  "writer \<Rightarrow> Message \<Rightarrow> WebsocketMgr \<Rightarrow> WebsocketMgr \<times> event list" where
  "messageDispatcher_v0 write message mgr =
     (mgr, usersRange_v0 write message (objects mgr) (users_v0 mgr))"

section \<open>Notions used to state the properties\<close>

text \<open>
  The log entries a pass owes for a list of delivery attempts: one
  \<open>"dropped message"\<close> entry for each attempt that failed, in order.
\<close>

definition failures :: "writer \<Rightarrow> (conn \<times> Message) list \<Rightarrow> (string \<times> string) list" where
  "failures write ws =
     concat (map (\<lambda>(c, m). case write c m of None \<Rightarrow> [] | Some err \<Rightarrow> [(''dropped message'', err)]) ws)"

text \<open>
  The deliveries one user record gives rise to in the sync.Map dispatcher, and in the v0
  dispatcher.
\<close>

fun userWrites_sm :: "Message \<Rightarrow> string \<times> User_sm \<Rightarrow> (conn \<times> Message) list" where
  "userWrites_sm m (uid, user) =
     concat (map (\<lambda>r. if uid = r then map (\<lambda>kv. (snd kv, m)) (devices_sm user) else [])
               (Receivers m))
     @ (if uid = Sender m
        then map (\<lambda>kv. (snd kv, m)) (filter (\<lambda>kv. fst kv \<noteq> Device m) (devices_sm user))
        else [])"

definition userWrites_v0 :: "Message \<Rightarrow> User \<Rightarrow> (conn \<times> Message) list" where
  "userWrites_v0 m user =
     map (\<lambda>kv. (snd kv, m))
       (filter (\<lambda>kv. \<not> (Sender m = ID user \<and> Device m = fst kv)) (devices user))"

text \<open>
  The message that iteration \<open>k\<close> of a read loop sends when no object is ever put back
  into the pool: the \<open>k\<close>-th \<open>Get\<close> takes the \<open>k\<close>-th object of the free list (or
  makes a new one when the list is used up), the \<open>k\<close>-th \<open>ReadJSON\<close> decodes into
  it, and the two stamps are set.
\<close>

definition stamped :: "string \<Rightarrow> string \<Rightarrow> (Message \<Rightarrow> Message) list \<Rightarrow> Message list \<Rightarrow> nat \<Rightarrow> Message" where
  "stamped userID device fs buf k =
     ((fs ! k) (fst (getMessageFromPool (drop k buf))))\<lparr>Device := device, Sender := userID\<rparr>"

text \<open>
  Sample states. Users \<open>u1\<close> and \<open>u3\<close> hash to pool 1 of two pools and \<open>u2\<close> to
  pool 0. Connection 1 is \<open>u1/web\<close>, 2 is \<open>u1/mobile\<close>, 3 is \<open>u2/web\<close>, 4 is
  \<open>u3/web\<close>. The message is from \<open>u1/web\<close> to \<open>u2\<close>. On the transport
  \<open>ex_write\<close> every write to connection 2 fails.
\<close>

definition ex_message :: Message where
  "ex_message = \<lparr>At = 0, Device = ''web'', Sender = ''u1'', MBytes = ''hi'', Receivers = [''u2'']\<rparr>"

definition ex_pool :: registry where
  "ex_pool = [(''u1web'', 1), (''u1mobile'', 2), (''u3web'', 4)]"

definition ex_pool_sm :: registry_sm where
  "ex_pool_sm =
     [(''u1'', \<lparr>devices_sm = [(''web'', 1), (''mobile'', 2)]\<rparr>),
      (''u3'', \<lparr>devices_sm = [(''web'', 4)]\<rparr>)]"

definition ex_mgr :: WebsocketMgr where
  "ex_mgr =
     \<lparr>users_v0 = [(''u1'', 0), (''u2'', 1)],
      objects = (\<lambda>p. if p = 0 then \<lparr>ID = ''u1'', devices = [(''web'', 1), (''mobile'', 2)]\<rparr>
                     else \<lparr>ID = ''u2'', devices = [(''web'', 3)]\<rparr>),
      messageBuf = [newMessage]\<rparr>"


definition ex_write :: writer where
  "ex_write c m = (if c = 2 then Some ''broken pipe'' else None)"

section \<open>Traces\<close>

lemma writes_append [simp]: "writes (xs @ ys) = writes xs @ writes ys"
  by (induction xs rule: writes.induct) simp_all

lemma closes_append [simp]: "closes (xs @ ys) = closes xs @ closes ys"
  by (induction xs rule: closes.induct) simp_all

lemma sends_append [simp]: "sends (xs @ ys) = sends xs @ sends ys"
  by (induction xs rule: sends.induct) simp_all

lemma logs_append [simp]: "logs (xs @ ys) = logs xs @ logs ys"
  by (induction xs rule: logs.induct) simp_all

lemma failures_simps [simp]:
  "failures write [] = []"
  "failures write ((c, m) # ws) =
     (case write c m of None \<Rightarrow> [] | Some err \<Rightarrow> [(''dropped message'', err)]) @ failures write ws"
  by (simp_all add: failures_def)

lemma failures_append [simp]: "failures write (xs @ ys) = failures write xs @ failures write ys"
  by (simp add: failures_def)

lemma writeOrLog_proj [simp]:
  "writes (writeOrLog write c m) = [(c, m)]"
  "closes (writeOrLog write c m) = []"
  "sends (writeOrLog write c m) = []"
  "logs (writeOrLog write c m) = failures write [(c, m)]"
  by (simp_all add: writeOrLog_def split: option.split)

section \<open>Shard router: properties\<close>

lemma uint32_numPools:
  assumes "0 < ncpu" and "ncpu < 2 ^ 31"
  shows "unat (of_nat (numPools ncpu) :: 32 word) = numPools ncpu"
    and "(of_nat (numPools ncpu) :: 32 word) \<noteq> 0"
proof -
  have lt: "numPools ncpu < 2 ^ 32"
    using assms by (simp add: numPools_def)
  then show u: "unat (of_nat (numPools ncpu) :: 32 word) = numPools ncpu"
    by (simp add: unat_of_nat)
  have "numPools ncpu \<noteq> 0"
    using assms by (simp add: numPools_def)
  with u show "(of_nat (numPools ncpu) :: 32 word) \<noteq> 0"
    by (metis unat_0)
qed

text \<open>
  C6. \<open>hashIndex\<close> is a function of the user ID and of the pool count alone (it
  creates its own hasher and reads no other state, so two calls with the same ID agree),
  and for every ID, the empty one included, its result is a valid index into the slice of
  \<open>numPools\<close> pools.
\<close>

theorem hashIndex_valid:
  assumes "0 < ncpu" and "ncpu < 2 ^ 31"
  shows "unat (hashIndex ncpu ident) < numPools ncpu
         \<and> hashIndex ncpu [] = offset32 mod of_nat (numPools ncpu)"
proof -
  let ?n = "of_nat (numPools ncpu) :: 32 word"
  have nz: "0 < ?n"
    using uint32_numPools(2) [OF assms] by (simp add: word_greater_zero_iff)
  have "sum32a_Write offset32 ident mod ?n < ?n"
    using nz by (rule word_mod_less_divisor)
  then have "unat (hashIndex ncpu ident) < unat ?n"
    by (simp add: hashIndex_def word_less_nat_alt)
  then have "unat (hashIndex ncpu ident) < numPools ncpu"
    by (simp add: uint32_numPools(1) [OF assms])
  moreover have "hashIndex ncpu [] = offset32 mod of_nat (numPools ncpu)"
    by (simp add: hashIndex_def)
  ultimately show ?thesis by simp
qed

theorem hashIndex_valid_witness:
  "(0::nat) < 2 \<and> (2::nat) < 2 ^ 31 \<and> hashIndex 2 [] = 1 \<and> unat (hashIndex 2 []) < numPools 2"
  using hashIndex_valid [of 2 "[]"] by (simp add: hashIndex_def offset32_def numPools_def)

section \<open>Message pool: properties\<close>

text \<open>
  C5. A message that is released and acquired again still carries the device of its
  prior use: \<open>putMessageToPool\<close> clears \<open>At\<close>, \<open>Sender\<close>, \<open>MBytes\<close> and
  \<open>Receivers\<close> and leaves \<open>Device\<close> as it was.
\<close>

theorem putMessageToPool_keeps_Device:
  "getMessageFromPool (putMessageToPool
       \<lparr>At = 7, Device = ''web'', Sender = ''u1'', MBytes = ''hi'', Receivers = [''u2'']\<rparr> [])
   = (\<lparr>At = 0, Device = ''web'', Sender = [], MBytes = [], Receivers = []\<rparr>, [])"
  by (simp add: putMessageToPool_def)

lemma getMessageFromPool_snd: "snd (getMessageFromPool buf) = drop 1 buf"
  by (cases buf) simp_all

lemma getMessageFromPool_fst: "fst (getMessageFromPool buf) \<in> insert newMessage (set buf)"
  by (cases buf) simp_all

section \<open>The copy-on-write registry: join and leave\<close>

lemma copyExcept_fst: "fst (copyExcept key users) = AList.delete key users"
  by (induction users) (auto split: prod.splits)

lemma copyExcept_snd:
  "snd (copyExcept key users) = map (\<lambda>kv. Close (snd kv)) (filter (\<lambda>kv. fst kv = key) users)"
  by (induction users) (auto split: prod.splits)

lemma closes_map_Close [simp]: "closes (map (\<lambda>kv. Close (snd kv)) xs) = map snd xs"
  by (induction xs) auto

lemma sends_map_Close [simp]: "sends (map (\<lambda>kv. Close (snd kv)) xs) = []"
  by (induction xs) auto

lemma filter_key_Some:
  "distinct (map fst users) \<Longrightarrow> map_of users key = Some v
     \<Longrightarrow> filter (\<lambda>kv. fst kv = key) users = [(key, v)]"
proof (induction users)
  case Nil
  then show ?case by simp
next
  case (Cons a users)
  obtain k w where a: "a = (k, w)" by (cases a)
  show ?case
  proof (cases "k = key")
    case True
    then have "key \<notin> fst ` set users" using Cons.prems a by auto
    then have "filter (\<lambda>kv. fst kv = key) users = []"
      by (force simp: filter_empty_conv)
    then show ?thesis using True Cons.prems a by simp
  next
    case False
    then show ?thesis using Cons a by simp
  qed
qed

lemma filter_key_None:
  "map_of users key = None \<Longrightarrow> filter (\<lambda>kv. fst kv = key) users = []"
  by (force simp: filter_empty_conv map_of_eq_None_iff)

lemma closes_copyExcept:
  "distinct (map fst users) \<Longrightarrow>
     closes (snd (copyExcept key users)) = (case map_of users key of None \<Rightarrow> [] | Some c \<Rightarrow> [c])"
  by (simp add: copyExcept_snd filter_key_Some filter_key_None split: option.split)

lemma update_delete_fresh:
   "AList.update key conn (AList.delete key users) = AList.delete key users @ [(key, conn)]"
  by (induction users) (auto)

lemma delete_append: "AList.delete k (xs @ ys) = AList.delete k xs @ AList.delete k ys"
  by (simp add: AList.delete_eq)

lemma userDeviceJoin_fst:
  "fst (userDeviceJoin userID device conn users)
     = AList.delete (userID @ device) users @ [(userID @ device, conn)]"
  by (simp add: userDeviceJoin_def split: prod.split)
     (metis copyExcept_fst fst_conv update_delete_fresh)

lemma userDeviceJoin_snd:
  "snd (userDeviceJoin userID device conn users) = snd (copyExcept (userID @ device) users)"
  by (simp add: userDeviceJoin_def split: prod.split)

lemma userDeviceJoin_distinct:
  "distinct (map fst users) \<Longrightarrow> distinct (map fst (fst (userDeviceJoin userID device conn users)))"
  by (simp add: userDeviceJoin_fst distinct_delete delete_notin_dom)

text \<open>
  In the copy-on-write registry, joining a pair that is registered closes the connection
  that was registered, once, and leaves the new connection as the only entry of the pair;
  the other entries are as they were.
\<close>

lemma userDeviceJoin_replaces:
  assumes "distinct (map fst users)" and "map_of users (userID @ device) = Some old"
  shows "closes (snd (userDeviceJoin userID device conn users)) = [old]"
    and "filter (\<lambda>kv. fst kv = userID @ device) (fst (userDeviceJoin userID device conn users))
           = [(userID @ device, conn)]"
    and "map_of (fst (userDeviceJoin userID device conn users)) (userID @ device) = Some conn"
    and "k \<noteq> userID @ device \<Longrightarrow> map_of (fst (userDeviceJoin userID device conn users)) k = map_of users k"
proof -
  show "closes (snd (userDeviceJoin userID device conn users)) = [old]"
    using assms by (simp add: userDeviceJoin_snd closes_copyExcept)
  have d: "distinct (map fst (fst (userDeviceJoin userID device conn users)))"
    using assms(1) by (rule userDeviceJoin_distinct)
  show m: "map_of (fst (userDeviceJoin userID device conn users)) (userID @ device) = Some conn"
    by (simp add: userDeviceJoin_fst map_add_def delete_conv')
  show "filter (\<lambda>kv. fst kv = userID @ device) (fst (userDeviceJoin userID device conn users))
           = [(userID @ device, conn)]"
    using d m by (rule filter_key_Some)
  show "k \<noteq> userID @ device \<Longrightarrow> map_of (fst (userDeviceJoin userID device conn users)) k = map_of users k"
    by (simp add: userDeviceJoin_fst map_add_def delete_conv' split: option.split)
qed

lemma userDeviceLeft_fst: "fst (userDeviceLeft u d users) = AList.delete (u @ d) users"
  by (simp add: userDeviceLeft_def copyExcept_fst)

lemma userDeviceLeft_snd:
  "snd (userDeviceLeft u d users)
     = map (\<lambda>kv. Close (snd kv)) (filter (\<lambda>kv. fst kv = u @ d) users)"
  by (simp add: userDeviceLeft_def copyExcept_snd)

section \<open>The sync.Map registry: join and leave\<close>

lemma leftRange_sm_keys: "map fst (leftRange_sm u d users) = map fst users"
  by (induction users) auto

lemma leftRange_sm_map_of:
  "map_of (leftRange_sm u d users) uid
     = (if uid = u
        then map_option (\<lambda>user. user\<lparr>devices_sm := AList.delete d (devices_sm user)\<rparr>) (map_of users u)
        else map_of users uid)"
  by (induction users) auto

text \<open>
  C2. The sync.Map \<open>userDeviceJoin\<close> on a pair that is registered: user \<open>u1\<close> has
  device \<open>web\<close> on connection 1 and joins again on connection 2. The new connection
  replaces the old one in the registry, and the trace is empty: connection 1 is not closed.
\<close>

theorem join_sm_leaves_old_open:
  "userDeviceJoin_sm ''u1'' ''web'' 2 [(''u1'', \<lparr>devices_sm = [(''web'', 1)]\<rparr>)]
     = ([(''u1'', \<lparr>devices_sm = [(''web'', 2)]\<rparr>)], [])"
  by (simp add: userDeviceJoin_sm_def)

section \<open>Dispatchers\<close>

lemma dispatchRange_closes [simp]: "closes (dispatchRange write m users) = []"
  by (induction users) (auto split: option.split)

lemma dispatchRange_sends [simp]: "sends (dispatchRange write m users) = []"
  by (induction users) (auto split: option.split)

lemma dispatchRange_logs [simp]: "logs (dispatchRange write m users) = []"
  by (induction users) (auto split: option.split)


lemma writes_map_WriteJSON [simp]:
  "writes (map (\<lambda>kv. WriteJSON (snd kv) m) xs) = map (\<lambda>kv. (snd kv, m)) xs"
  by (induction xs) auto

lemma dispatchRange_writes_subset:
  "set (writes (dispatchRange write m users))
     \<subseteq> (\<lambda>kv. (snd kv, m)) ` set (filter (\<lambda>kv. fst kv \<noteq> Sender m @ Device m) users)"
proof (induction users)
  case Nil
  show ?case by simp
next
  case (Cons a users)
  obtain k c where a: "a = (k, c)" by (cases a)
  show ?case
  proof (cases "write c m")
    case None
    with Cons a show ?thesis by auto
  next
    case (Some err)
    with Cons a show ?thesis by auto
  qed
qed

lemma devicesRange_sm_proj [simp]:
  "writes (devicesRange_sm write m ds) = map (\<lambda>kv. (snd kv, m)) ds"
  "closes (devicesRange_sm write m ds) = []"
  "sends (devicesRange_sm write m ds) = []"
  "logs (devicesRange_sm write m ds) = failures write (map (\<lambda>kv. (snd kv, m)) ds)"
  by (induction ds) auto

lemma othersRange_sm_proj [simp]:
  "writes (othersRange_sm write m ds)
     = map (\<lambda>kv. (snd kv, m)) (filter (\<lambda>kv. fst kv \<noteq> Device m) ds)"
  "closes (othersRange_sm write m ds) = []"
  "sends (othersRange_sm write m ds) = []"
  "logs (othersRange_sm write m ds)
     = failures write (map (\<lambda>kv. (snd kv, m)) (filter (\<lambda>kv. fst kv \<noteq> Device m) ds))"
  by (induction ds) auto

lemma receiversLoop_sm_proj [simp]:
  "writes (receiversLoop_sm write m uid user rs)
     = concat (map (\<lambda>r. if uid = r then map (\<lambda>kv. (snd kv, m)) (devices_sm user) else []) rs)"
  "closes (receiversLoop_sm write m uid user rs) = []"
  "sends (receiversLoop_sm write m uid user rs) = []"
  "logs (receiversLoop_sm write m uid user rs)
     = failures write (writes (receiversLoop_sm write m uid user rs))"
  by (induction rs) auto

lemma dispatchRange_sm_writes:
  "writes (dispatchRange_sm write m users) = concat (map (userWrites_sm m) users)"
  by (induction users) auto

lemma dispatchRange_sm_proj [simp]:
  "closes (dispatchRange_sm write m users) = []"
  "sends (dispatchRange_sm write m users) = []"
  by (induction users) auto

lemma dispatchRange_sm_logs:
  "logs (dispatchRange_sm write m users) = failures write (writes (dispatchRange_sm write m users))"
  by (induction users) auto

lemma devicesRange_v0_proj [simp]:
  "writes (devicesRange_v0 write m user ds)
     = map (\<lambda>kv. (snd kv, m)) (filter (\<lambda>kv. \<not> (Sender m = ID user \<and> Device m = fst kv)) ds)"
  "closes (devicesRange_v0 write m user ds) = []"
  "sends (devicesRange_v0 write m user ds) = []"
  "logs (devicesRange_v0 write m user ds)
     = failures write (map (\<lambda>kv. (snd kv, m))
         (filter (\<lambda>kv. \<not> (Sender m = ID user \<and> Device m = fst kv)) ds))"
  by (induction ds) auto

lemma usersRange_v0_writes:
  "writes (usersRange_v0 write m objs us)
     = concat (map (\<lambda>up. userWrites_v0 m (objs (snd up))) us)"
  by (induction us) (auto simp: userWrites_v0_def)

lemma usersRange_v0_proj [simp]:
  "closes (usersRange_v0 write m objs us) = []"
  "sends (usersRange_v0 write m objs us) = []"
  by (induction us) auto

lemma usersRange_v0_logs:
  "logs (usersRange_v0 write m objs us) = failures write (writes (usersRange_v0 write m objs us))"
  by (induction us) auto

text \<open>
  In a pass of the dispatcher of v0 and of the sync.Map package, whatever writes fail:
  the registry and the pool are returned as they were; the delivery attempts are those of
  a pass on which no write fails, in the same order and number; the log holds one entry
  for each failed attempt and nothing else; no connection is closed and no message is
  sent to a queue again.
\<close>

lemma write_failure_logged_v0_sm:
  "fst (messageDispatcher_v0 write m mgr) = mgr
   \<and> writes (snd (messageDispatcher_v0 write m mgr))
       = writes (snd (messageDispatcher_v0 (\<lambda>c m. None) m mgr))
   \<and> logs (snd (messageDispatcher_v0 write m mgr))
       = failures write (writes (snd (messageDispatcher_v0 write m mgr)))
   \<and> closes (snd (messageDispatcher_v0 write m mgr)) = []
   \<and> sends (snd (messageDispatcher_v0 write m mgr)) = []
   \<and> fst (messageDispatcher_sm write m st') = st'
   \<and> writes (snd (messageDispatcher_sm write m st'))
       = writes (snd (messageDispatcher_sm (\<lambda>c m. None) m st'))
   \<and> logs (snd (messageDispatcher_sm write m st'))
       = failures write (writes (snd (messageDispatcher_sm write m st')))
   \<and> closes (snd (messageDispatcher_sm write m st')) = []
   \<and> sends (snd (messageDispatcher_sm write m st')) = []"
  by (simp add: messageDispatcher_v0_def messageDispatcher_sm_def
      usersRange_v0_writes usersRange_v0_logs dispatchRange_sm_writes dispatchRange_sm_logs)

text \<open>
  C7. In src/v1/im.go the claim fails. Pool 1 of two pools holds \<open>u1/web\<close>,
  \<open>u1/mobile\<close> (connection 2) and \<open>u3/web\<close> (connection 4), and the write to
  connection 2 fails. The pass writes to connection 2 and panics in
  \<open>wsMgr.log.Error\<close>, the logger being nil: nothing is logged and connection 4 is
  never written.
\<close>

theorem dispatcher_panics_on_failed_write:
  "messageDispatcher ex_write ex_message (ex_pool, [])
     = ((ex_pool, []), [WriteJSON 2 ex_message, Panic])
   \<and> logs (snd (messageDispatcher ex_write ex_message (ex_pool, []))) = []
   \<and> writes (snd (messageDispatcher (\<lambda>c m. None) ex_message (ex_pool, [])))
       = [(2, ex_message), (4, ex_message)]"
  by (simp add: messageDispatcher_def ex_pool_def ex_message_def ex_write_def)

lemma mset_concat_map: "mset (concat (map f xs)) = (\<Sum>x\<in>#mset xs. mset (f x))"
  by (induction xs) auto

lemma dispatch_sm_mset:
  "mset (writes (dispatchRange_sm write m users)) = (\<Sum>u\<in>#mset users. mset (userWrites_sm m u))"
  by (simp add: dispatchRange_sm_writes mset_concat_map)








section \<open>Connection handlers\<close>

lemma readLoop_ReadError:
  "readLoop ncpu u d (ReadError err # rs) buf = Some (snd (getMessageFromPool buf), [Panic])"
  by (simp split: prod.split)

lemma readLoop_Decoded:
  "readLoop ncpu u d (Decoded decode # rs) buf
     = map_option
         (\<lambda>(b, evs). (b, route ncpu u ((decode (fst (getMessageFromPool buf)))\<lparr>Device := d, Sender := u\<rparr>) @ evs))
         (readLoop ncpu u d rs (snd (getMessageFromPool buf)))"
  by (simp split: prod.split)

lemma readLoop_sm_ReadError:
  "readLoop_sm ncpu u d (ReadError err # rs) buf
     = Some (snd (getMessageFromPool buf), [LogError ''read data from websocket'' err])"
  by (simp split: prod.split)

lemma readLoop_sm_Decoded:
  "readLoop_sm ncpu u d (Decoded decode # rs) buf
     = map_option
         (\<lambda>(b, evs). (b, route ncpu u ((decode (fst (getMessageFromPool buf)))\<lparr>Device := d, Sender := u\<rparr>) @ evs))
         (readLoop_sm ncpu u d rs (snd (getMessageFromPool buf)))"
proof -
  have comm: "m\<lparr>Sender := u, Device := d\<rparr> = m\<lparr>Device := d, Sender := u\<rparr>" for m :: Message
    by simp
  show ?thesis
    by (simp add: comm split: prod.split)
qed

lemma readLoop_v0_ReadError:
  "readLoop_v0 u d (ReadError err # rs) buf
     = Some (snd (getMessageFromPool buf), [LogError ''read data from websocket'' err])"
  by (simp split: prod.split)

lemma readLoop_v0_Decoded:
  "readLoop_v0 u d (Decoded decode # rs) buf
     = map_option
         (\<lambda>(b, evs). (b, Send 0 ((decode (fst (getMessageFromPool buf)))\<lparr>Device := d, Sender := u\<rparr>) # evs))
         (readLoop_v0 u d rs (snd (getMessageFromPool buf)))"
  by (simp split: prod.split)

declare readLoop.simps(2) [simp del]

declare readLoop_sm.simps(2) [simp del]

declare readLoop_v0.simps(2) [simp del]

lemma route_proj [simp]:
  "sends (route ncpu u m) = map (\<lambda>r. (hashIndex ncpu r, m)) (Receivers m) @ [(hashIndex ncpu u, m)]"
  "closes (route ncpu u m) = []"
  "writes (route ncpu u m) = []"
  "logs (route ncpu u m) = []"
proof -
  have s: "sends (map (\<lambda>r. Send (hashIndex ncpu r) m) rs) = map (\<lambda>r. (hashIndex ncpu r, m)) rs" for rs
    by (induction rs) simp_all
  have c: "closes (map (\<lambda>r. Send (hashIndex ncpu r) m) rs) = []" for rs
    by (induction rs) simp_all
  have w: "writes (map (\<lambda>r. Send (hashIndex ncpu r) m) rs) = []" for rs
    by (induction rs) simp_all
  have l: "logs (map (\<lambda>r. Send (hashIndex ncpu r) m) rs) = []" for rs
    by (induction rs) simp_all
  show "sends (route ncpu u m) = map (\<lambda>r. (hashIndex ncpu r, m)) (Receivers m) @ [(hashIndex ncpu u, m)]"
    "closes (route ncpu u m) = []" "writes (route ncpu u m) = []" "logs (route ncpu u m) = []"
    by (simp_all add: route_def s c w l)
qed

lemma readLoop_exits:
  "ReadError err \<in> set reads \<Longrightarrow> \<exists>buf' evs. readLoop ncpu u d reads buf = Some (buf', evs)"
proof (induction reads arbitrary: buf)
  case Nil
  then show ?case by simp
next
  case (Cons r rs)
  show ?case
  proof (cases r)
    case (ReadError e)
    then show ?thesis by (simp add: readLoop_ReadError)
  next
    case (Decoded f)
    with Cons.prems have "ReadError err \<in> set rs" by simp
    from Cons.IH [OF this, of "snd (getMessageFromPool buf)"] Decoded
    show ?thesis by (auto simp: readLoop_Decoded)
  qed
qed

text \<open>A loop that has exited has read some messages and then met a failed read.\<close>

lemma readLoop_Some_shape:
  "readLoop ncpu u d reads buf = Some r \<Longrightarrow>
     \<exists>fs err rest. reads = map Decoded fs @ ReadError err # rest"
proof (induction reads arbitrary: buf r)
  case Nil
  then show ?case by simp
next
  case (Cons x xs)
  show ?case
  proof (cases x)
    case (ReadError e)
    then have "x # xs = map Decoded [] @ ReadError e # xs" by simp
    then show ?thesis by blast
  next
    case (Decoded f)
    with Cons.prems obtain r' where
      "readLoop ncpu u d xs (snd (getMessageFromPool buf)) = Some r'"
      by (auto simp: readLoop_Decoded)
    from Cons.IH [OF this] obtain fs err rest where "xs = map Decoded fs @ ReadError err # rest"
      by blast
    with Decoded have "x # xs = map Decoded (f # fs) @ ReadError err # rest" by simp
    then show ?thesis by blast
  qed
qed

lemma readLoop_quiet:
  "readLoop ncpu u d reads buf = Some (buf', evs) \<Longrightarrow> closes evs = [] \<and> writes evs = []"
proof (induction reads arbitrary: buf buf' evs)
  case Nil
  then show ?case by simp
next
  case (Cons r rs)
  show ?case
  proof (cases r)
    case (ReadError e)
    with Cons.prems show ?thesis by (auto simp: readLoop_ReadError)
  next
    case (Decoded f)
    with Cons.prems obtain evs' where
      "readLoop ncpu u d rs (snd (getMessageFromPool buf)) = Some (buf', evs')"
      "evs = route ncpu u ((f (fst (getMessageFromPool buf)))\<lparr>Device := d, Sender := u\<rparr>) @ evs'"
      by (auto simp: readLoop_Decoded)
    with Cons.IH show ?thesis by simp
  qed
qed

lemma readLoop_sends:
  "readLoop ncpu u d reads buf = Some (buf', evs) \<Longrightarrow> (i, m) \<in> set (sends evs) \<Longrightarrow>
     \<exists>decode m0. Decoded decode \<in> set reads \<and> m0 \<in> insert newMessage (set buf)
        \<and> m = (decode m0)\<lparr>Device := d, Sender := u\<rparr>"
proof (induction reads arbitrary: buf buf' evs)
  case Nil
  then show ?case by simp
next
  case (Cons r rs)
  show ?case
  proof (cases r)
    case (ReadError e)
    with Cons.prems show ?thesis by (auto simp: readLoop_ReadError)
  next
    case (Decoded f)
    let ?m = "(f (fst (getMessageFromPool buf)))\<lparr>Device := d, Sender := u\<rparr>"
    from Decoded Cons.prems obtain evs' where
      *: "readLoop ncpu u d rs (snd (getMessageFromPool buf)) = Some (buf', evs')"
      "evs = route ncpu u ?m @ evs'"
      by (auto simp: readLoop_Decoded)
    with Cons.prems(2) consider "m = ?m" | "(i, m) \<in> set (sends evs')"
      by auto
    then show ?thesis
    proof cases
      case 1
      then show ?thesis
        using Decoded getMessageFromPool_fst [of buf] by auto
    next
      case 2
      from Cons.IH [OF *(1) 2] obtain decode m0 where
        "Decoded decode \<in> set rs" "m0 \<in> insert newMessage (set (snd (getMessageFromPool buf)))"
        "m = (decode m0)\<lparr>Device := d, Sender := u\<rparr>"
        by blast
      moreover have "set (snd (getMessageFromPool buf)) \<subseteq> set buf"
        by (simp add: getMessageFromPool_snd set_drop_subset)
      ultimately show ?thesis by auto
    qed
  qed
qed

text \<open>
  The loop of the sync.Map package exits when the loop of src/v1/im.go does, with the
  same free list and the same sends; it closes nothing either.
\<close>

lemma readLoop_sm_rel:
  "readLoop ncpu u d reads buf = Some (b, evs) \<Longrightarrow>
     \<exists>evs'. readLoop_sm ncpu u d reads buf = Some (b, evs') \<and> sends evs' = sends evs
        \<and> closes evs' = []"
proof (induction reads arbitrary: buf b evs)
  case Nil
  then show ?case by simp
next
  case (Cons r rs)
  show ?case
  proof (cases r)
    case (ReadError e)
    with Cons.prems show ?thesis
      by (auto simp: readLoop_ReadError readLoop_sm_ReadError)
  next
    case (Decoded f)
    let ?m = "(f (fst (getMessageFromPool buf)))\<lparr>Device := d, Sender := u\<rparr>"
    from Decoded Cons.prems obtain evs0 where
      *: "readLoop ncpu u d rs (snd (getMessageFromPool buf)) = Some (b, evs0)"
      "evs = route ncpu u ?m @ evs0"
      by (auto simp: readLoop_Decoded)
    from Cons.IH [OF *(1)] obtain evs1 where
      "readLoop_sm ncpu u d rs (snd (getMessageFromPool buf)) = Some (b, evs1)"
      "sends evs1 = sends evs0" "closes evs1 = []"
      by blast
    with Decoded *(2) show ?thesis
      by (simp add: readLoop_sm_Decoded)
  qed
qed

lemma concat_map_upt_Suc:
  "concat (map g [0..<Suc n]) = g 0 @ concat (map (\<lambda>k. g (Suc k)) [0..<n])"
proof -
  have "[0..<Suc n] = 0 # map Suc [0..<n]"
    by (simp add: upt_conv_Cons map_Suc_upt del: upt_Suc)
  then show ?thesis
    by (simp add: comp_def del: upt_Suc)
qed

lemma stamped_0:
  "stamped u d (f # fs) buf 0 = (f (fst (getMessageFromPool buf)))\<lparr>Device := d, Sender := u\<rparr>"
  by (simp add: stamped_def)

lemma stamped_Suc:
  "stamped u d (f # fs) buf (Suc k) = stamped u d fs (snd (getMessageFromPool buf)) k"
  by (simp add: stamped_def getMessageFromPool_snd)

text \<open>The whole run of each of the three loops.\<close>

lemma readLoop_run:
  "readLoop ncpu u d (map Decoded fs @ ReadError err # rest) buf
     = Some (drop (Suc (length fs)) buf,
             concat (map (\<lambda>k. route ncpu u (stamped u d fs buf k)) [0..<length fs]) @ [Panic])"
proof (induction fs arbitrary: buf)
  case Nil
  show ?case by (simp add: readLoop_ReadError getMessageFromPool_snd)
next
  case (Cons f fs)
  have d: "drop (Suc (length fs)) (snd (getMessageFromPool buf)) = drop (Suc (Suc (length fs))) buf"
    by (simp add: getMessageFromPool_snd)
  show ?case
    by (simp add: readLoop_Decoded Cons.IH concat_map_upt_Suc stamped_0 stamped_Suc d
        del: upt_Suc)
qed

lemma readLoop_sm_run:
  "readLoop_sm ncpu u d (map Decoded fs @ ReadError err # rest) buf
     = Some (drop (Suc (length fs)) buf,
             concat (map (\<lambda>k. route ncpu u (stamped u d fs buf k)) [0..<length fs])
             @ [LogError ''read data from websocket'' err])"
proof (induction fs arbitrary: buf)
  case Nil
  show ?case by (simp add: readLoop_sm_ReadError getMessageFromPool_snd)
next
  case (Cons f fs)
  have d: "drop (Suc (length fs)) (snd (getMessageFromPool buf)) = drop (Suc (Suc (length fs))) buf"
    by (simp add: getMessageFromPool_snd)
  show ?case
    by (simp add: readLoop_sm_Decoded Cons.IH concat_map_upt_Suc stamped_0 stamped_Suc d
        del: upt_Suc)
qed

lemma readLoop_v0_run:
  "readLoop_v0 u d (map Decoded fs @ ReadError err # rest) buf
     = Some (drop (Suc (length fs)) buf,
             map (\<lambda>k. Send 0 (stamped u d fs buf k)) [0..<length fs]
             @ [LogError ''read data from websocket'' err])"
proof (induction fs arbitrary: buf)
  case Nil
  show ?case by (simp add: readLoop_v0_ReadError getMessageFromPool_snd)
next
  case (Cons f fs)
  have d: "drop (Suc (length fs)) (snd (getMessageFromPool buf)) = drop (Suc (Suc (length fs))) buf"
    by (simp add: getMessageFromPool_snd)
  show ?case
    by (simp add: readLoop_v0_Decoded Cons.IH map_upt_Suc stamped_0 stamped_Suc d
        del: upt_Suc)
qed

lemma handleConnection_Some:
  "readLoop ncpu u d reads buf = Some (buf', evs) \<Longrightarrow>
     handleConnection ncpu u d reads (users, buf)
       = Some ((fst (userDeviceLeft u d users), buf'), evs @ snd (userDeviceLeft u d users))"
  by (simp add: handleConnection_def split: prod.split)

lemma handleConnection_SomeD:
  "handleConnection ncpu u d reads (users, buf) = Some (st', evs) \<Longrightarrow>
     \<exists>buf' evs'. readLoop ncpu u d reads buf = Some (buf', evs')
        \<and> st' = (fst (userDeviceLeft u d users), buf')
        \<and> evs = evs' @ snd (userDeviceLeft u d users)"
  by (auto simp: handleConnection_def split: option.splits prod.splits)

lemma handleConnection_sm_Some:
  "readLoop_sm ncpu u d reads buf = Some (buf', evs) \<Longrightarrow>
     handleConnection_sm ncpu u d reads (users, buf)
       = Some ((fst (userDeviceLeft_sm u d users), buf'),
               evs @ snd (userDeviceLeft_sm u d users))"
  by (simp add: handleConnection_sm_def split: prod.split)

lemma deviceLeft_messageBuf: "messageBuf (fst (deviceLeft p d mgr)) = messageBuf mgr"
  by (simp add: deviceLeft_def userLeft_def Let_def split: option.split)

lemma deviceLeft_sends [simp]: "sends (snd (deviceLeft p d mgr)) = []"
  by (simp add: deviceLeft_def Let_def split: option.split)

lemma handleConnection_v0_Some:
  "readLoop_v0 (ID (objects mgr p)) d reads (messageBuf mgr) = Some (buf', evs) \<Longrightarrow>
     handleConnection_v0 p d reads mgr
       = Some (fst (deviceLeft p d (mgr\<lparr>messageBuf := buf'\<rparr>)),
               evs @ snd (deviceLeft p d (mgr\<lparr>messageBuf := buf'\<rparr>)))"
  by (simp add: handleConnection_v0_def split: prod.split)

lemma sends_concat: "sends (concat xss) = concat (map sends xss)"
  by (induction xss) simp_all

lemma count_list_concat: "count_list (concat xss) y = sum_list (map (\<lambda>xs. count_list xs y) xss)"
  by (induction xss) simp_all


lemma delete_filter: "AList.delete k xs = filter (\<lambda>kv. fst kv \<noteq> k) xs"
  by (induction xs) auto

lemma leftRange_sm_distinct:
  "distinct (map fst users) \<Longrightarrow>
     leftRange_sm u d users
       = map (\<lambda>(uid, user).
                if uid = u
                then (uid, user\<lparr>devices_sm := filter (\<lambda>kv. fst kv \<noteq> d) (devices_sm user)\<rparr>)
                else (uid, user)) users"
proof (induction users)
  case Nil
  show ?case by simp
next
  case (Cons a users)
  obtain uid user where a: "a = (uid, user)" by (cases a)
  show ?case
  proof (cases "uid = u")
    case True
    with Cons.prems a have "u \<notin> fst ` set users" by auto
    then have "map (\<lambda>(uid, user).
                if uid = u
                then (uid, user\<lparr>devices_sm := filter (\<lambda>kv. fst kv \<noteq> d) (devices_sm user)\<rparr>)
                else (uid, user)) users = users"
      by (intro map_idI) force
    with True a show ?thesis by (simp add: delete_filter)
  next
    case False
    with Cons a show ?thesis by simp
  qed
qed

text \<open>
  Leave works on the key, not on the handler's own connection. When a pair joins again
  on a new connection, the join closes the old one, the old handler's read fails, and its
  deferred leave then closes the new connection and removes its entry.
\<close>

lemma stale_handler_leave:
  assumes "ReadError err \<in> set reads"
  shows "\<exists>buf' evs.
           readLoop ncpu u d reads buf = Some (buf', evs)
         \<and> handleConnection ncpu u d reads (fst (userDeviceJoin u d new users), buf)
             = Some ((AList.delete (u @ d) users, buf'), evs @ [Close new])"
proof -
  from readLoop_exits [OF assms] obtain buf' evs where
    loop: "readLoop ncpu u d reads buf = Some (buf', evs)"
    by blast
  have k: "filter (\<lambda>kv. fst kv = u @ d) (AList.delete (u @ d) users) = []"
    by (auto simp: filter_empty_conv AList.delete_eq)
  have "fst (userDeviceLeft u d (fst (userDeviceJoin u d new users))) = AList.delete (u @ d) users"
    by (simp add: userDeviceLeft_fst userDeviceJoin_fst delete_append delete_idem)
  moreover have "snd (userDeviceLeft u d (fst (userDeviceJoin u d new users))) = [Close new]"
    by (simp add: userDeviceLeft_snd userDeviceJoin_fst k)
  ultimately show ?thesis
    using handleConnection_Some [OF loop, of "fst (userDeviceJoin u d new users)"] loop
    by simp
qed

text \<open>
  C8. Every message that a handler of the copy-on-write package sends to a queue has the
  handler's user ID as \<open>Sender\<close> and the handler's device as \<open>Device\<close>, and its
  \<open>MBytes\<close>, \<open>Receivers\<close> and \<open>At\<close> are those that one of the \<open>ReadJSON\<close>
  calls left in the message it was given (a pooled message or a new one): the handler
  assigns none of the three. The handler of the sync.Map package sends the same messages.
\<close>

theorem stamping_frame:
  assumes "handleConnection ncpu userID device reads (users, buf) = Some (st, evs)"
    and "(i, m) \<in> set (sends evs)"
  shows "Sender m = userID \<and> Device m = device
         \<and> (\<exists>decode m0. Decoded decode \<in> set reads \<and> m0 \<in> insert newMessage (set buf)
              \<and> MBytes m = MBytes (decode m0) \<and> Receivers m = Receivers (decode m0)
              \<and> At m = At (decode m0))
         \<and> (\<exists>st' evs'. handleConnection_sm ncpu userID device reads (users', buf) = Some (st', evs')
              \<and> sends evs' = sends evs)"
proof -
  from handleConnection_SomeD [OF assms(1)] obtain buf' evs' where
    loop: "readLoop ncpu userID device reads buf = Some (buf', evs')"
    and evs: "evs = evs' @ snd (userDeviceLeft userID device users)"
    by blast
  have s: "sends evs = sends evs'"
    by (simp add: evs userDeviceLeft_snd)
  with assms(2) have "(i, m) \<in> set (sends evs')" by simp
  from readLoop_sends [OF loop this] obtain decode m0 where
    "Decoded decode \<in> set reads" "m0 \<in> insert newMessage (set buf)"
    "m = (decode m0)\<lparr>Device := device, Sender := userID\<rparr>"
    by blast
  then have "Sender m = userID \<and> Device m = device
         \<and> (\<exists>decode m0. Decoded decode \<in> set reads \<and> m0 \<in> insert newMessage (set buf)
              \<and> MBytes m = MBytes (decode m0) \<and> Receivers m = Receivers (decode m0)
              \<and> At m = At (decode m0))"
    by auto
  moreover from readLoop_sm_rel [OF loop] obtain evs1 where
    "readLoop_sm ncpu userID device reads buf = Some (buf', evs1)" "sends evs1 = sends evs'"
    by blast
  then have "\<exists>st' evs'. handleConnection_sm ncpu userID device reads (users', buf) = Some (st', evs')
              \<and> sends evs' = sends evs"
    using handleConnection_sm_Some [of ncpu userID device reads buf buf' evs1 users'] s
    by (simp add: userDeviceLeft_sm_def)
  ultimately show ?thesis by blast
qed

text \<open>
  A client that supplies \<open>Sender = "mallory"\<close> and \<open>At = 5\<close>: the sender is
  overwritten, the timestamp, the payload and the receivers pass through. The failed read
  that follows panics on the nil logger, and the deferred leave closes connection 1.
\<close>

theorem stamping_frame_witness:
  "handleConnection 1 ''u1'' ''web''
       [Decoded (\<lambda>m. m\<lparr>At := 5, Sender := ''mallory'', MBytes := ''hi'', Receivers := [''u2'']\<rparr>),
        ReadError ''EOF'']
       ([(''u1web'', 1)], [])
     = Some (([], []),
         [Send 0 \<lparr>At = 5, Device = ''web'', Sender = ''u1'', MBytes = ''hi'', Receivers = [''u2'']\<rparr>,
          Send 1 \<lparr>At = 5, Device = ''web'', Sender = ''u1'', MBytes = ''hi'', Receivers = [''u2'']\<rparr>,
          Panic, Close 1])"
  using stamping_frame [where ncpu = 1 and userID = "''u1''" and device = "''web''"
      and reads = "[Decoded (\<lambda>m. m\<lparr>At := 5, Sender := ''mallory'', MBytes := ''hi'', Receivers := [''u2'']\<rparr>),
        ReadError ''EOF'']"
      and users = "[(''u1web'', 1)]" and buf = "[]" and st = "([], [])"
      and evs = "[Send 0 \<lparr>At = 5, Device = ''web'', Sender = ''u1'', MBytes = ''hi'', Receivers = [''u2'']\<rparr>,
          Send 1 \<lparr>At = 5, Device = ''web'', Sender = ''u1'', MBytes = ''hi'', Receivers = [''u2'']\<rparr>,
          Panic, Close 1]"
      and i = 0
      and m = "\<lparr>At = 5, Device = ''web'', Sender = ''u1'', MBytes = ''hi'', Receivers = [''u2'']\<rparr>"]
  by (simp add: handleConnection_def userDeviceLeft_def readLoop_Decoded readLoop_ReadError
      route_def newMessage_def hashIndex_def offset32_def prime32_def numPools_def)

text \<open>
  C4, as the claim states it, fails: a handler of user \<open>u1\<close> with two pools reads one
  message with the single receiver \<open>u3\<close>; both users hash to pool 1, and the handler
  sends the message to the queue of pool 1 twice.
\<close>

theorem route_no_dedup_counterexample:
  "map_option (\<lambda>r. map fst (sends (snd r)))
     (readLoop 1 ''u1'' ''web''
        [Decoded (\<lambda>m. m\<lparr>MBytes := ''hi'', Receivers := [''u3'']\<rparr>), ReadError ''EOF''] [])
   = Some [1, 1]"
  by (simp add: readLoop_Decoded readLoop_ReadError hashIndex_def offset32_def prime32_def
      numPools_def)

text \<open>
  C4, amended. Take a run of a handler of either v1 package in which the reads
  \<open>fs\<close> succeed and the next one fails (every run whose loop exits is of this kind),
  and write \<open>m k\<close> for the \<open>k\<close>-th message as stamped. The sends of the run are, for
  each message in turn, one send of \<open>m k\<close> to the pool of each entry of its
  \<open>Receivers\<close>, in order, and then one send of \<open>m k\<close> to the pool of the sender:
  \<open>K + 1\<close> sends for a message with \<open>K\<close> entries. Nothing is deduplicated: the queue
  of a pool \<open>s\<close> is sent each message once for every entry of \<open>Receivers\<close> that hashes
  to \<open>s\<close>, and once more when \<open>s\<close> is the sender's pool.
\<close>

theorem route_sends:
  assumes "handleConnection ncpu userID device (map Decoded fs @ ReadError err # rest) (users, buf)
             = Some (st, evs)"
  shows "sends evs
           = concat (map (\<lambda>k.
               map (\<lambda>r. (hashIndex ncpu r, stamped userID device fs buf k))
                 (Receivers (stamped userID device fs buf k))
               @ [(hashIndex ncpu userID, stamped userID device fs buf k)]) [0..<length fs])
         \<and> length (sends evs)
           = sum_list (map (\<lambda>k. length (Receivers (stamped userID device fs buf k)) + 1)
               [0..<length fs])
         \<and> count_list (map fst (sends evs)) s
           = sum_list (map (\<lambda>k.
               count_list (map (hashIndex ncpu) (Receivers (stamped userID device fs buf k))) s
               + (if hashIndex ncpu userID = s then 1 else 0)) [0..<length fs])
         \<and> (\<exists>st' evs'.
               handleConnection_sm ncpu userID device (map Decoded fs @ ReadError err # rest)
                 (users', buf) = Some (st', evs')
               \<and> sends evs' = sends evs)"
proof -
  let ?reads = "map Decoded fs @ ReadError err # rest"
  let ?block = "\<lambda>k. map (\<lambda>r. (hashIndex ncpu r, stamped userID device fs buf k))
                 (Receivers (stamped userID device fs buf k))
               @ [(hashIndex ncpu userID, stamped userID device fs buf k)]"
  from handleConnection_SomeD [OF assms] obtain buf' evs' where
    loop: "readLoop ncpu userID device ?reads buf = Some (buf', evs')"
    and evs: "evs = evs' @ snd (userDeviceLeft userID device users)"
    by blast
  from loop have evs': "evs' = concat (map (\<lambda>k. route ncpu userID (stamped userID device fs buf k))
      [0..<length fs]) @ [Panic]"
    by (simp add: readLoop_run)
  have 1: "sends evs = concat (map ?block [0..<length fs])"
    by (simp add: evs evs' userDeviceLeft_snd sends_concat comp_def)
  have 2: "length (sends evs)
           = sum_list (map (\<lambda>k. length (Receivers (stamped userID device fs buf k)) + 1)
               [0..<length fs])"
    unfolding 1 by (simp add: length_concat comp_def)
  have 3: "count_list (map fst (sends evs)) s
           = sum_list (map (\<lambda>k.
               count_list (map (hashIndex ncpu) (Receivers (stamped userID device fs buf k))) s
               + (if hashIndex ncpu userID = s then 1 else 0)) [0..<length fs])"
    unfolding 1 by (simp add: map_concat count_list_concat comp_def)
  from readLoop_sm_rel [OF loop] obtain evs1 where
    "readLoop_sm ncpu userID device ?reads buf = Some (buf', evs1)" "sends evs1 = sends evs'"
    by blast
  then have 4: "\<exists>st' evs'.
               handleConnection_sm ncpu userID device ?reads (users', buf) = Some (st', evs')
               \<and> sends evs' = sends evs"
    using handleConnection_sm_Some [of ncpu userID device ?reads buf buf' evs1 users']
    by (simp add: userDeviceLeft_sm_def evs userDeviceLeft_snd)
  show ?thesis
    using 1 2 3 4 by (intro conjI)
qed

text \<open>
  A handler of \<open>u1/web\<close> with two pools reads a message for \<open>u3\<close> and \<open>u2\<close> and
  then a message for nobody: three sends and one send, and pool 1, which is the pool of
  \<open>u1\<close> and of \<open>u3\<close>, is sent the first message twice.
\<close>

theorem route_sends_witness:
  "handleConnection 1 ''u1'' ''web''
     (map Decoded [\<lambda>m. m\<lparr>Receivers := [''u3'', ''u2'']\<rparr>, \<lambda>m. m\<lparr>Receivers := []\<rparr>]
      @ ReadError ''EOF'' # [])
     ([(''u1web'', 1)], [])
   = Some (([], []),
       [Send 1 \<lparr>At = 0, Device = ''web'', Sender = ''u1'', MBytes = [], Receivers = [''u3'', ''u2'']\<rparr>,
        Send 0 \<lparr>At = 0, Device = ''web'', Sender = ''u1'', MBytes = [], Receivers = [''u3'', ''u2'']\<rparr>,
        Send 1 \<lparr>At = 0, Device = ''web'', Sender = ''u1'', MBytes = [], Receivers = [''u3'', ''u2'']\<rparr>,
        Send 1 \<lparr>At = 0, Device = ''web'', Sender = ''u1'', MBytes = [], Receivers = []\<rparr>,
        Panic, Close 1])
   \<and> count_list [1, 0, 1, 1 :: 32 word] 1 = 3"
proof -
  let ?evs = "[Send 1 \<lparr>At = 0, Device = ''web'', Sender = ''u1'', MBytes = [], Receivers = [''u3'', ''u2'']\<rparr>,
        Send 0 \<lparr>At = 0, Device = ''web'', Sender = ''u1'', MBytes = [], Receivers = [''u3'', ''u2'']\<rparr>,
        Send 1 \<lparr>At = 0, Device = ''web'', Sender = ''u1'', MBytes = [], Receivers = [''u3'', ''u2'']\<rparr>,
        Send 1 \<lparr>At = 0, Device = ''web'', Sender = ''u1'', MBytes = [], Receivers = []\<rparr>,
        Panic, Close 1]"
  have run: "handleConnection 1 ''u1'' ''web''
     (map Decoded [\<lambda>m. m\<lparr>Receivers := [''u3'', ''u2'']\<rparr>, \<lambda>m. m\<lparr>Receivers := []\<rparr>]
      @ ReadError ''EOF'' # [])
     ([(''u1web'', 1)], []) = Some (([], []), ?evs)"
    by (simp add: handleConnection_def userDeviceLeft_def readLoop_Decoded readLoop_ReadError
        route_def newMessage_def hashIndex_def offset32_def prime32_def numPools_def)
  from route_sends [OF run, of 1] have "count_list (map fst (sends ?evs)) 1 = 3"
    by (simp add: stamped_def newMessage_def hashIndex_def offset32_def prime32_def numPools_def)
  then have "count_list [1, 0, 1, 1 :: 32 word] 1 = 3"
    by simp
  with run show ?thesis by blast
qed


text \<open>
  C9. Take a run of a handler of any of the three packages in which the reads \<open>fs\<close>
  succeed and the next one fails, from the first read to the end of the deferred leave.
  The free list of the pool is then what it was without its first \<open>length fs + 1\<close>
  objects: every iteration has taken one object and none has come back. In v0, where
  the release operation is defined, the \<open>k\<close>-th message sent is decoded into the
  \<open>k\<close>-th object of the initial free list, or into a new object once the list is used
  up, never into an object of an earlier iteration. A pass of a dispatcher leaves the
  pool as it was.
\<close>

theorem release_never_called:
  "map_option (\<lambda>r. snd (fst r))
     (handleConnection ncpu userID device (map Decoded fs @ ReadError err # rest) (users, buf))
     = Some (drop (Suc (length fs)) buf)
   \<and> map_option (\<lambda>r. snd (fst r))
       (handleConnection_sm ncpu userID device (map Decoded fs @ ReadError err # rest) (users', buf))
     = Some (drop (Suc (length fs)) buf)
   \<and> map_option (\<lambda>r. messageBuf (fst r))
       (handleConnection_v0 p device (map Decoded fs @ ReadError err # rest) mgr)
     = Some (drop (Suc (length fs)) (messageBuf mgr))
   \<and> map_option (\<lambda>r. sends (snd r))
       (handleConnection_v0 p device (map Decoded fs @ ReadError err # rest) mgr)
     = Some (map (\<lambda>k. (0, stamped (ID (objects mgr p)) device fs (messageBuf mgr) k))
               [0..<length fs])
   \<and> snd (fst (messageDispatcher wr m (users, buf))) = buf
   \<and> snd (fst (messageDispatcher_sm wr m (users', buf))) = buf
   \<and> messageBuf (fst (messageDispatcher_v0 wr m mgr)) = messageBuf mgr"
proof -
  let ?reads = "map Decoded fs @ ReadError err # rest"
  have 1: "map_option (\<lambda>r. snd (fst r)) (handleConnection ncpu userID device ?reads (users, buf))
     = Some (drop (Suc (length fs)) buf)"
    using handleConnection_Some [OF readLoop_run [of ncpu userID device fs err rest buf], of users]
    by simp
  have 2: "map_option (\<lambda>r. snd (fst r)) (handleConnection_sm ncpu userID device ?reads (users', buf))
     = Some (drop (Suc (length fs)) buf)"
    using handleConnection_sm_Some [OF readLoop_sm_run [of ncpu userID device fs err rest buf], of users']
    by simp
  note v0 = handleConnection_v0_Some
    [OF readLoop_v0_run [of "ID (objects mgr p)" device fs err rest "messageBuf mgr"]]
  have 3: "map_option (\<lambda>r. messageBuf (fst r)) (handleConnection_v0 p device ?reads mgr)
     = Some (drop (Suc (length fs)) (messageBuf mgr))"
    using v0 by (simp add: deviceLeft_messageBuf)
  have s: "sends (map (\<lambda>k. Send 0 (g k)) ks) = map (\<lambda>k. (0, g k)) ks" for g and ks :: "nat list"
    by (induction ks) simp_all
  have 4: "map_option (\<lambda>r. sends (snd r)) (handleConnection_v0 p device ?reads mgr)
     = Some (map (\<lambda>k. (0, stamped (ID (objects mgr p)) device fs (messageBuf mgr) k))
               [0..<length fs])"
    using v0 by (simp add: s)
  show ?thesis
    using 1 2 3 4
    by (simp add: messageDispatcher_def messageDispatcher_sm_def messageDispatcher_v0_def)
qed

text \<open>
  The v0 handler of \<open>u1/web\<close> on a pool that holds three objects: it reads one message
  and then fails. Two objects are taken, the third is left, and the object that was
  decoded into does not come back.
\<close>

theorem release_never_called_witness:
  "map_option (\<lambda>r. messageBuf (fst r))
     (handleConnection_v0 0 ''web''
        (map Decoded [\<lambda>m. m\<lparr>MBytes := ''hi''\<rparr>] @ ReadError ''EOF'' # [])
        (ex_mgr\<lparr>messageBuf := [newMessage\<lparr>At := 1\<rparr>, newMessage\<lparr>At := 2\<rparr>, newMessage\<lparr>At := 3\<rparr>]\<rparr>))
     = Some [newMessage\<lparr>At := 3\<rparr>]
   \<and> map_option (\<lambda>r. sends (snd r))
     (handleConnection_v0 0 ''web''
        (map Decoded [\<lambda>m. m\<lparr>MBytes := ''hi''\<rparr>] @ ReadError ''EOF'' # [])
        (ex_mgr\<lparr>messageBuf := [newMessage\<lparr>At := 1\<rparr>, newMessage\<lparr>At := 2\<rparr>, newMessage\<lparr>At := 3\<rparr>]\<rparr>))
     = Some [(0, \<lparr>At = 1, Device = ''web'', Sender = ''u1'', MBytes = ''hi'', Receivers = []\<rparr>)]"
  using release_never_called [where p = 0 and device = "''web''"
      and fs = "[\<lambda>m. m\<lparr>MBytes := ''hi''\<rparr>]" and err = "''EOF''" and rest = "[]"
      and mgr = "ex_mgr\<lparr>messageBuf := [newMessage\<lparr>At := 1\<rparr>, newMessage\<lparr>At := 2\<rparr>, newMessage\<lparr>At := 3\<rparr>]\<rparr>"]
  by (simp add: stamped_def newMessage_def ex_mgr_def)

text \<open>
  C3, as the claim states it, fails on the sync.Map package: \<open>u1\<close> has the single
  device \<open>web\<close> on connection 1 and its handler's first read fails. The user record of
  \<open>u1\<close> stays in the registry with no device, and the trace holds no \<open>Close\<close>.
\<close>

theorem leave_sm_keeps_user_counterexample:
  "handleConnection_sm 1 ''u1'' ''web'' [ReadError ''EOF'']
       ([(''u1'', \<lparr>devices_sm = [(''web'', 1)]\<rparr>)], [])
     = Some (([(''u1'', \<lparr>devices_sm = []\<rparr>)], []), [LogError ''read data from websocket'' ''EOF''])"
  by (simp add: handleConnection_sm_def userDeviceLeft_sm_def readLoop_sm_ReadError)

text \<open>
  C3, amended. In both v1 packages, when one of the reads fails the loop exits without
  having closed anything, and the handler then runs leave for its pair exactly once,
  through the deferred call: the final registry is the one leave makes of the registry,
  and the trace is the loop's followed by leave's.
  \<^item> In src/v1/im.go leave removes the entry under the pair's key, if there is one, and
    keeps all other entries as they are; it closes the connection that was under the
    key, once, and nothing else.
  \<^item> In the sync.Map package leave removes the device from the record of the user, if
    it is there, and keeps the user's other devices, the records of all other users, and
    the record of the user itself, also when no device is left in it.
\<close>

theorem leave_on_read_failure:
  assumes "ReadError err \<in> set reads"
    and "distinct (map fst users)" and "distinct (map fst users')"
  shows "(\<exists>buf' evs.
           readLoop ncpu userID device reads buf = Some (buf', evs) \<and> closes evs = []
           \<and> handleConnection ncpu userID device reads (users, buf)
               = Some ((fst (userDeviceLeft userID device users), buf'),
                       evs @ snd (userDeviceLeft userID device users)))
         \<and> fst (userDeviceLeft userID device users)
             = filter (\<lambda>kv. fst kv \<noteq> userID @ device) users
         \<and> closes (snd (userDeviceLeft userID device users))
             = (case map_of users (userID @ device) of None \<Rightarrow> [] | Some c \<Rightarrow> [c])
         \<and> (\<exists>buf' evs.
               readLoop_sm ncpu userID device reads buf = Some (buf', evs) \<and> closes evs = []
               \<and> handleConnection_sm ncpu userID device reads (users', buf)
                   = Some ((fst (userDeviceLeft_sm userID device users'), buf'),
                           evs @ snd (userDeviceLeft_sm userID device users')))
         \<and> fst (userDeviceLeft_sm userID device users')
             = map (\<lambda>(uid, user).
                      if uid = userID
                      then (uid, user\<lparr>devices_sm :=
                                   filter (\<lambda>kv. fst kv \<noteq> device) (devices_sm user)\<rparr>)
                      else (uid, user)) users'"
proof -
  from readLoop_exits [OF assms(1)] obtain buf' evs where
    loop: "readLoop ncpu userID device reads buf = Some (buf', evs)"
    by blast
  have "closes evs = []"
    using readLoop_quiet [OF loop] by simp
  with loop handleConnection_Some [OF loop, of users]
  have 1: "\<exists>buf' evs.
           readLoop ncpu userID device reads buf = Some (buf', evs) \<and> closes evs = []
           \<and> handleConnection ncpu userID device reads (users, buf)
               = Some ((fst (userDeviceLeft userID device users), buf'),
                       evs @ snd (userDeviceLeft userID device users))"
    by blast
  have 2: "fst (userDeviceLeft userID device users)
             = filter (\<lambda>kv. fst kv \<noteq> userID @ device) users"
    by (simp add: userDeviceLeft_fst delete_filter)
  have 3: "closes (snd (userDeviceLeft userID device users))
             = (case map_of users (userID @ device) of None \<Rightarrow> [] | Some c \<Rightarrow> [c])"
    using assms(2) by (simp add: userDeviceLeft_def closes_copyExcept)
  from readLoop_sm_rel [OF loop] obtain evs1 where
    sm: "readLoop_sm ncpu userID device reads buf = Some (buf', evs1)" "closes evs1 = []"
    by blast
  with handleConnection_sm_Some [OF sm(1), of users']
  have 4: "\<exists>buf' evs.
               readLoop_sm ncpu userID device reads buf = Some (buf', evs) \<and> closes evs = []
               \<and> handleConnection_sm ncpu userID device reads (users', buf)
                   = Some ((fst (userDeviceLeft_sm userID device users'), buf'),
                           evs @ snd (userDeviceLeft_sm userID device users'))"
    by blast
  have 5: "fst (userDeviceLeft_sm userID device users')
             = map (\<lambda>(uid, user).
                      if uid = userID
                      then (uid, user\<lparr>devices_sm :=
                                   filter (\<lambda>kv. fst kv \<noteq> device) (devices_sm user)\<rparr>)
                      else (uid, user)) users'"
    using leftRange_sm_distinct [OF assms(3)] by (simp add: userDeviceLeft_sm_def)
  show ?thesis
    using 1 2 3 4 5 by (intro conjI)
qed

text \<open>
  Pool 1 of two pools with \<open>u1/web\<close>, \<open>u1/mobile\<close> and \<open>u3/web\<close>, in each v1
  package; the handler of \<open>u1/web\<close> reads one message and then fails.
\<close>

theorem leave_on_read_failure_witness:
  "ReadError ''EOF'' \<in> set [Decoded (\<lambda>m. m), ReadError ''EOF'']
   \<and> distinct (map fst ex_pool) \<and> distinct (map fst ex_pool_sm)
   \<and> map_option (\<lambda>r. (fst (fst r), closes (snd r)))
        (handleConnection 1 ''u1'' ''web'' [Decoded (\<lambda>m. m), ReadError ''EOF''] (ex_pool, []))
       = Some ([(''u1mobile'', 2), (''u3web'', 4)], [1])
   \<and> map_option (\<lambda>r. (fst (fst r), closes (snd r)))
        (handleConnection_sm 1 ''u1'' ''web'' [Decoded (\<lambda>m. m), ReadError ''EOF'']
           (ex_pool_sm, []))
       = Some ([(''u1'', \<lparr>devices_sm = [(''mobile'', 2)]\<rparr>),
                (''u3'', \<lparr>devices_sm = [(''web'', 4)]\<rparr>)], [])"
  using leave_on_read_failure [where err = "''EOF''"
      and reads = "[Decoded (\<lambda>m. m), ReadError ''EOF'']"
      and users = ex_pool and ncpu = 1 and userID = "''u1''" and device = "''web''"
      and buf = "[]" and users' = ex_pool_sm]
  by (simp add: ex_pool_def ex_pool_sm_def handleConnection_def handleConnection_sm_def
      userDeviceLeft_def userDeviceLeft_sm_def readLoop_ReadError readLoop_Decoded
      readLoop_sm_ReadError readLoop_sm_Decoded route_def)

section \<open>Key collisions in the copy-on-write registry\<close>

text \<open>
  C10. Two different pairs with the same concatenation \<open>userID+device\<close> are one key.
  When the first joins on connection \<open>ca\<close> and the second on connection \<open>cb\<close>
  (neither registered before), the second join closes \<open>ca\<close>, and \<open>cb\<close> is the only
  entry under the key. A pass of the dispatcher on a message stamped by either pair
  skips that entry: neither \<open>ca\<close> nor \<open>cb\<close> is written.
\<close>

theorem key_collision:
  assumes "ua @ da = ub @ db" and "(ua, da) \<noteq> (ub, db)"
    and "distinct (map fst users)"
    and "ca \<notin> snd ` set users" and "cb \<notin> snd ` set users"
    and "(Sender m, Device m) = (ua, da) \<or> (Sender m, Device m) = (ub, db)"
  shows "closes (snd (userDeviceJoin ub db cb (fst (userDeviceJoin ua da ca users)))) = [ca]
         \<and> filter (\<lambda>kv. fst kv = ua @ da)
              (fst (userDeviceJoin ub db cb (fst (userDeviceJoin ua da ca users))))
             = [(ub @ db, cb)]
         \<and> ca \<notin> fst ` set (writes (snd (messageDispatcher wr m
              (fst (userDeviceJoin ub db cb (fst (userDeviceJoin ua da ca users))), buf))))
         \<and> cb \<notin> fst ` set (writes (snd (messageDispatcher wr m
              (fst (userDeviceJoin ub db cb (fst (userDeviceJoin ua da ca users))), buf))))"
proof -
  let ?key = "ub @ db"
  let ?r1 = "fst (userDeviceJoin ua da ca users)"
  let ?r2 = "fst (userDeviceJoin ub db cb ?r1)"
  have key: "ua @ da = ?key" by (fact assms(1))
  have d1: "distinct (map fst ?r1)"
    using assms(3) by (rule userDeviceJoin_distinct)
  have m1: "map_of ?r1 ?key = Some ca"
    by (simp add: userDeviceJoin_fst key map_add_def delete_conv')
  note rep = userDeviceJoin_replaces [OF d1 m1, where conn = cb]
  have r2: "?r2 = AList.delete ?key users @ [(?key, cb)]"
    by (simp add: userDeviceJoin_fst key delete_append delete_idem)
  have mk: "Sender m @ Device m = ?key"
    using assms(6) key by auto
  have w: "set (writes (snd (messageDispatcher wr m (?r2, buf))))
             \<subseteq> (\<lambda>kv. (snd kv, m)) ` set (filter (\<lambda>kv. fst kv \<noteq> ?key) (AList.delete ?key users))"
    using dispatchRange_writes_subset [of wr m ?r2]
    by (simp add: messageDispatcher_def mk r2)
  have sub: "snd ` set (filter (\<lambda>kv. fst kv \<noteq> ?key) (AList.delete ?key users)) \<subseteq> snd ` set users"
    by (auto simp: AList.delete_eq)
  have img: "fst ` set (writes (snd (messageDispatcher wr m (?r2, buf)))) \<subseteq> snd ` set users"
  proof
    fix c
    assume "c \<in> fst ` set (writes (snd (messageDispatcher wr m (?r2, buf))))"
    then obtain m' where "(c, m') \<in> set (writes (snd (messageDispatcher wr m (?r2, buf))))"
      by force
    with w have "(c, m') \<in> (\<lambda>kv. (snd kv, m)) ` set (filter (\<lambda>kv. fst kv \<noteq> ?key) (AList.delete ?key users))"
      by blast
    then have "c \<in> snd ` set (filter (\<lambda>kv. fst kv \<noteq> ?key) (AList.delete ?key users))"
      by force
    with sub show "c \<in> snd ` set users" by blast
  qed
  show ?thesis
    using rep(1) rep(2) img assms(4,5) unfolding key by auto
qed

text \<open>
  The pairs \<open>("ab", "c")\<close> and \<open>("a", "bc")\<close>; with two pools both users hash to the
  same pool.
\<close>

theorem key_collision_witness:
  "''ab'' @ ''c'' = ''a'' @ ''bc'' \<and> (''ab'', ''c'') \<noteq> (''a'', ''bc'')
   \<and> hashIndex 1 ''ab'' = hashIndex 1 ''a''
   \<and> userDeviceJoin ''ab'' ''c'' 1 [] = ([(''abc'', 1)], [])
   \<and> userDeviceJoin ''a'' ''bc'' 2 [(''abc'', 1)] = ([(''abc'', 2)], [Close 1])
   \<and> snd (messageDispatcher ex_write (ex_message\<lparr>Sender := ''ab'', Device := ''c''\<rparr>)
        ([(''abc'', 2)], [])) = []
   \<and> snd (messageDispatcher ex_write (ex_message\<lparr>Sender := ''a'', Device := ''bc''\<rparr>)
        ([(''abc'', 2)], [])) = []"
  using key_collision [where ua = "''ab''" and da = "''c''" and ub = "''a''"
      and db = "''bc''" and users = "[]" and ca = 1 and cb = 2
      and m = "ex_message\<lparr>Sender := ''ab'', Device := ''c''\<rparr>" and wr = ex_write and buf = "[]"]
  by (simp add: userDeviceJoin_def messageDispatcher_def hashIndex_def offset32_def prime32_def
      numPools_def)

end
